theory Spec2Isabelle
  imports Main
begin

section \<open>The lifecycle service of the workbench (lifecycleService.ts)\<close>

text \<open>
  The class \<open>LifecycleService\<close> answers the main process' request
  \<open>vscode:beforeUnload\<close>: it broadcasts \<open>onWillShutdown\<close>, collects the vetos
  of the listeners, aggregates them into one decision and replies on one of two
  channels. Asynchronous work is modelled in logical time: tick \<open>0\<close> is the
  synchronous run of the request handler, and a promise either settles at some
  tick or stays pending for ever.
\<close>

subsection \<open>Enumerations\<close>

text \<open>
  Modelled from the spec: the enums \<open>ShutdownReason\<close> and \<open>StartupKind\<close> are
  declared in vs/platform/lifecycle/common/lifecycle and \<open>Severity\<close> in
  vs/base/common/severity; the file at hand only imports them. The spec's data
  model lists the members. A numeric enum of TypeScript denotes pairwise
  distinct numbers; \<open>reason_value\<close> numbers the members from 1.
\<close>

datatype ShutdownReason = CLOSE | QUIT | RELOAD | LOAD

datatype StartupKind = NewWindow | ReloadedWindow | ReopenedWindow

datatype Severity = Ignore | Info | Warning | Error

fun reason_value :: "ShutdownReason \<Rightarrow> int" where
  "reason_value CLOSE = 1"
| "reason_value QUIT = 2"
| "reason_value RELOAD = 3"
| "reason_value LOAD = 4"

subsection \<open>Promises in logical time\<close>

text \<open>
  Modelled from the spec: \<open>TPromise\<close> (vs/base/common/winjs.base) is not part
  of the file at hand. A deferred computation yields a value or fails
  (\<open>Rejected\<close> with the error), at some tick, or never settles (\<open>Pending\<close>).
  \<open>TPromise_as\<close> is a promise that is complete from the start; a promise
  derived by \<open>then\<close> settles at the tick of its source; \<open>join\<close> settles once
  every member has settled, and fails when a member did.
\<close>

datatype 'a settlement = Fulfilled 'a | Rejected string

datatype 'a TPromise = Settles nat "'a settlement" | Pending

definition TPromise_as :: "'a \<Rightarrow> 'a TPromise" where
  "TPromise_as v = Settles 0 (Fulfilled v)"

fun settled_at :: "nat \<Rightarrow> 'a TPromise \<Rightarrow> bool" where
  "settled_at T (Settles t s) = (t = T)"
| "settled_at T Pending = False"

fun settled_by :: "nat \<Rightarrow> 'a TPromise \<Rightarrow> bool" where
  "settled_by T (Settles t s) = (t \<le> T)"
| "settled_by T Pending = False"

text \<open>
  \<open>p.then(f, g)\<close> where both callbacks return without a value: the derived
  promise is fulfilled whatever the settlement of \<open>p\<close> was, since the error
  callback absorbs the failure.
\<close>

fun then_void :: "'a TPromise \<Rightarrow> unit TPromise" where
  "then_void (Settles t s) = Settles t (Fulfilled ())"
| "then_void Pending = Pending"

fun join :: "'a TPromise list \<Rightarrow> 'a list TPromise" where
  "join [] = Settles 0 (Fulfilled [])"
| "join (Pending # ps) = Pending"
| "join (Settles t s # ps) =
     (case join ps of
        Pending \<Rightarrow> Pending
      | Settles t' s' \<Rightarrow>
          Settles (max t t')
            (case s of
               Rejected e \<Rightarrow> Rejected e
             | Fulfilled v \<Rightarrow>
                 (case s' of Rejected e \<Rightarrow> Rejected e | Fulfilled vs \<Rightarrow> Fulfilled (v # vs))))"

text \<open>
  \<open>p.then(() => e)\<close> where \<open>e\<close> reads mutable state: \<open>f t\<close> is the value of
  \<open>e\<close> when the callback runs, at the tick \<open>t\<close> at which \<open>p\<close> is fulfilled.
\<close>

fun then_read :: "'a TPromise \<Rightarrow> (nat \<Rightarrow> 'b) \<Rightarrow> 'b TPromise" where
  "then_read (Settles t (Fulfilled v)) f = Settles t (Fulfilled (f t))"
| "then_read (Settles t (Rejected e)) f = Settles t (Rejected e)"
| "then_read Pending f = Pending"

subsection \<open>Collecting the vetos\<close>

text \<open>
  An objection is what a listener passes to \<open>veto(value)\<close>: a boolean or a
  promise of one. A listener of \<open>onWillShutdown\<close> is the list of objections it
  submits for a reason, in the order of its calls of \<open>veto\<close>; \<open>fire\<close> calls the
  listeners in the order of their registration (lines 86 to 93).
\<close>

datatype objection = Immediate bool | Deferred "bool TPromise"

type_synonym listener = "ShutdownReason \<Rightarrow> objection list"

definition fire_onWillShutdown :: "listener list \<Rightarrow> ShutdownReason \<Rightarrow> objection list" where
  "fire_onWillShutdown listeners reason = concat (map (\<lambda>l. l reason) listeners)"

subsection \<open>Aggregating the vetos\<close>

text \<open>
  The state the two callbacks of line 110 to 118 write: the local variable
  \<open>lazyValue\<close> and the calls of \<open>_messageService.show\<close>.
\<close>

record unload_state =
  lazyValue :: bool
  shown :: "(Severity \<times> string) list"

definition on_value :: "bool \<Rightarrow> unload_state \<Rightarrow> unload_state" where
  "on_value v st = (if v then st\<lparr>lazyValue := True\<rparr> else st)"

text \<open>
  \<open>toErrorMessage\<close> (vs/base/common/errorMessage) is not part of the file at
  hand and is a parameter.
\<close>

definition on_error :: "(string \<Rightarrow> string) \<Rightarrow> string \<Rightarrow> unload_state \<Rightarrow> unload_state" where
  "on_error toErrorMessage err st =
     st\<lparr>shown := shown st @ [(Error, toErrorMessage err)], lazyValue := True\<rparr>"

fun run_callback :: "(string \<Rightarrow> string) \<Rightarrow> unload_state \<Rightarrow> bool TPromise \<Rightarrow> unload_state" where
  "run_callback toErrorMessage st (Settles t (Fulfilled v)) = on_value v st"
| "run_callback toErrorMessage st (Settles t (Rejected e)) = on_error toErrorMessage e st"
| "run_callback toErrorMessage st Pending = st"

text \<open>
  The state after tick \<open>T\<close>: at every tick the callbacks of the promises that
  settle at it have run, on the state the tick before left. \<open>lazyValue\<close>
  starts as \<open>false\<close> (line 100), and nothing has been shown.
\<close>

fun state_at :: "(string \<Rightarrow> string) \<Rightarrow> bool TPromise list \<Rightarrow> nat \<Rightarrow> unload_state" where
  "state_at toErrorMessage promises 0 =
     foldl (run_callback toErrorMessage) \<lparr>lazyValue = False, shown = []\<rparr>
       (filter (settled_at 0) promises)"
| "state_at toErrorMessage promises (Suc T) =
     foldl (run_callback toErrorMessage) (state_at toErrorMessage promises T)
       (filter (settled_at (Suc T)) promises)"

text \<open>
  The loop of lines 102 to 120. \<open>promises\<close> collects the deferred objections
  that got their callbacks attached (the source keeps the promises derived by
  \<open>then\<close>, see \<open>then_void\<close>); the boolean tells whether the loop left through
  the \<open>return\<close> of line 106.
\<close>

fun scan :: "objection list \<Rightarrow> bool TPromise list \<Rightarrow> bool TPromise list \<times> bool" where
  "scan [] promises = (promises, False)"
| "scan (Immediate b # vetos) promises =
     (if b then (promises, True) else scan vetos promises)"
| "scan (Deferred p # vetos) promises = scan vetos (promises @ [p])"

text \<open>
  Lines 95 to 121: the decision (the promise \<open>onBeforeUnload\<close> returns) and the
  deferred objections whose callbacks will run. After the \<open>return\<close> of line
  106 these are the deferred objections that precede the immediate \<open>true\<close>:
  their callbacks stay attached, the later ones get none.
\<close>

definition resolve :: "(string \<Rightarrow> string) \<Rightarrow> objection list \<Rightarrow> bool TPromise \<times> bool TPromise list" where
  "resolve toErrorMessage vetos =
     (if vetos = [] then (TPromise_as False, [])
      else
        (case scan vetos [] of
           (promises, returned) \<Rightarrow>
             if returned then (TPromise_as True, promises)
             else
               (then_read (join (map then_void promises))
                  (\<lambda>t. lazyValue (state_at toErrorMessage promises t)),
                promises)))"

definition onBeforeUnload ::
  "(string \<Rightarrow> string) \<Rightarrow> listener list \<Rightarrow> ShutdownReason \<Rightarrow> bool TPromise \<times> bool TPromise list" where
  "onBeforeUnload toErrorMessage listeners reason =
     resolve toErrorMessage (fire_onWillShutdown listeners reason)"

subsection \<open>The storage service\<close>

text \<open>
  Modelled from the spec: the storage service (vs/platform/storage) is not part
  of the file at hand. The spec describes a key/value store with \<open>get\<close>,
  \<open>set\<close> and \<open>remove\<close>, keyed by a string within a scope; the values
  the lifecycle service stores are strings. \<open>getInteger\<close> reads the value of
  a key as a decimal integer, the way \<open>parseInt(value, 10)\<close> does, and yields
  \<open>undefined\<close> when the key is absent.
\<close>

datatype StorageScope = GLOBAL | WORKSPACE

type_synonym storage = "StorageScope \<times> string \<Rightarrow> string option"

definition store :: "string \<Rightarrow> string \<Rightarrow> StorageScope \<Rightarrow> storage \<Rightarrow> storage" where
  "store key v scope st = st((scope, key) \<mapsto> v)"

definition remove_key :: "string \<Rightarrow> StorageScope \<Rightarrow> storage \<Rightarrow> storage" where
  "remove_key key scope st = st((scope, key) := None)"

definition get_key :: "string \<Rightarrow> StorageScope \<Rightarrow> storage \<Rightarrow> string option" where
  "get_key key scope st = st (scope, key)"

text \<open>
  What a read of a number yields in JavaScript: \<open>undefined\<close>, \<open>NaN\<close> or a
  number, here an integer. Equality of two values of this type is \<open>===\<close> as
  long as one side is a number.
\<close>

datatype js_number = Undefined | NaN | Number int

definition digits :: string where
  "digits = ''0123456789''"

definition digit_char :: "nat \<Rightarrow> char" where
  "digit_char d = digits ! d"

definition is_digit :: "char \<Rightarrow> bool" where
  "is_digit c = (c \<in> set digits)"

definition digit_value :: "char \<Rightarrow> nat" where
  "digit_value c = of_char c - 48"

definition is_space :: "char \<Rightarrow> bool" where
  "is_space c = (c \<in> set [CHR '' '', CHR 0x09, CHR 0x0A, CHR 0x0B, CHR 0x0C, CHR 0x0D])"

definition parse_digits :: "string \<Rightarrow> nat" where
  "parse_digits ds = foldl (\<lambda>a c. 10 * a + digit_value c) 0 ds"

text \<open>
  \<open>parseInt(s, 10)\<close>: leading white space is skipped, a sign is read, then
  the longest run of decimal digits; no digit at all gives \<open>NaN\<close>.
\<close>

definition parseInt :: "string \<Rightarrow> js_number" where
  "parseInt s =
     (let s1 = dropWhile is_space s;
          negative = (case s1 of [] \<Rightarrow> False | c # r \<Rightarrow> c = CHR ''-'');
          s2 = (case s1 of [] \<Rightarrow> [] | c # r \<Rightarrow> if c = CHR ''-'' \<or> c = CHR ''+'' then r else s1);
          ds = takeWhile is_digit s2
      in if ds = [] then NaN
         else Number (if negative then - int (parse_digits ds) else int (parse_digits ds)))"

definition getInteger :: "string \<Rightarrow> StorageScope \<Rightarrow> storage \<Rightarrow> js_number" where
  "getInteger key scope st =
     (case get_key key scope st of None \<Rightarrow> Undefined | Some v \<Rightarrow> parseInt v)"

text \<open>
  \<open>JSON.stringify\<close> of an integer number (the value of a numeric enum): its
  decimal digits, after a minus sign when it is negative.
\<close>

function dec_digits :: "nat \<Rightarrow> string" where
  "dec_digits n =
     (if n < 10 then [digit_char n] else dec_digits (n div 10) @ [digit_char (n mod 10)])"
  by pat_completeness auto
termination
  by (relation "measure id") auto

declare dec_digits.simps [simp del]

definition JSON_stringify :: "int \<Rightarrow> string" where
  "JSON_stringify n =
     (if n < 0 then CHR ''-'' # dec_digits (nat (- n)) else dec_digits (nat n))"

subsection \<open>The service\<close>

definition lastShutdownReasonKey :: string where
  "lastShutdownReasonKey = ''lifecyle.lastShutdownReason''"

text \<open>
  The fields of the class and the collaborators it writes to. \<open>willShutdown\<close>
  is \<open>None\<close> as long as the field \<open>_willShutdown\<close> has not been assigned (a
  read yields \<open>undefined\<close>). \<open>messageService\<close> holds the calls of \<open>show\<close>,
  \<open>onShutdown_fired\<close> the events fired on \<open>_onShutdown\<close> and \<open>ipc_sent\<close>
  the calls of \<open>ipc.send\<close>, each in the order of the calls.
\<close>

record LifecycleService =
  startupKind :: StartupKind
  willShutdown :: "bool option"
  windowId :: nat
  storageService :: storage
  messageService :: "(Severity \<times> string) list"
  onWillShutdown_listeners :: "listener list"
  onShutdown_fired :: "ShutdownReason list"
  ipc_sent :: "(string \<times> nat) list"

text \<open>
  The constructor (lines 29 to 45), given what the message service has shown
  so far, the window's id and the storage: no listener is registered yet, and
  \<open>_willShutdown\<close> is not assigned.
\<close>

definition new_LifecycleService ::
  "(Severity \<times> string) list \<Rightarrow> nat \<Rightarrow> storage \<Rightarrow> LifecycleService" where
  "new_LifecycleService msgs wid st =
     (let lastShutdownReason = getInteger lastShutdownReasonKey WORKSPACE st;
          st' = remove_key lastShutdownReasonKey WORKSPACE st
      in \<lparr>startupKind =
            (if lastShutdownReason = Number (reason_value RELOAD) then ReloadedWindow
             else if lastShutdownReason = Number (reason_value LOAD) then ReopenedWindow
             else NewWindow),
          willShutdown = None,
          windowId = wid,
          storageService = st',
          messageService = msgs,
          onWillShutdown_listeners = [],
          onShutdown_fired = [],
          ipc_sent = []\<rparr>)"

text \<open>A subscription to the event \<open>onWillShutdown\<close>.\<close>

definition subscribe_onWillShutdown :: "listener \<Rightarrow> LifecycleService \<Rightarrow> LifecycleService" where
  "subscribe_onWillShutdown l s =
     s\<lparr>onWillShutdown_listeners := onWillShutdown_listeners s @ [l]\<rparr>"

text \<open>The message \<open>vscode:beforeUnload\<close> carries two channels and the reason.\<close>

record beforeUnload_reply =
  okChannel :: string
  cancelChannel :: string
  reason :: ShutdownReason

text \<open>Lines 68 and 69: the synchronous part of the handler.\<close>

definition beforeUnload_accept :: "beforeUnload_reply \<Rightarrow> LifecycleService \<Rightarrow> LifecycleService" where
  "beforeUnload_accept reply s =
     s\<lparr>willShutdown := Some True,
       storageService :=
         store lastShutdownReasonKey (JSON_stringify (reason_value (reason reply))) WORKSPACE
           (storageService s)\<rparr>"

text \<open>Lines 73 to 80: the callback given to \<open>done\<close>, run with the decision.\<close>

definition beforeUnload_done ::
  "beforeUnload_reply \<Rightarrow> bool \<Rightarrow> LifecycleService \<Rightarrow> LifecycleService" where
  "beforeUnload_done reply veto s =
     (if veto then
        s\<lparr>storageService := remove_key lastShutdownReasonKey WORKSPACE (storageService s),
          willShutdown := Some False,
          ipc_sent := ipc_sent s @ [(cancelChannel reply, windowId s)]\<rparr>
      else
        s\<lparr>onShutdown_fired := onShutdown_fired s @ [reason reply],
          ipc_sent := ipc_sent s @ [(okChannel reply, windowId s)]\<rparr>)"

text \<open>
  The service after tick \<open>T\<close> of a request that arrived at tick 0 in the
  state \<open>s\<close> (lines 67 to 82): the synchronous part has run, the callbacks of
  the deferred objections settled so far have shown their errors, and the
  callback of \<open>done\<close> has run if the decision is fulfilled by then. It never
  runs for a decision that stays pending.
\<close>

definition beforeUnload_at ::
  "(string \<Rightarrow> string) \<Rightarrow> nat \<Rightarrow> beforeUnload_reply \<Rightarrow> LifecycleService \<Rightarrow> LifecycleService" where
  "beforeUnload_at toErrorMessage T reply s =
     (let s1 = beforeUnload_accept reply s;
          (decision, promises) =
             onBeforeUnload toErrorMessage (onWillShutdown_listeners s1) (reason reply);
          s2 = s1\<lparr>messageService :=
                   messageService s1 @ shown (state_at toErrorMessage promises T)\<rparr>
      in case decision of
           Settles t (Fulfilled veto) \<Rightarrow> if t \<le> T then beforeUnload_done reply veto s2 else s2
         | Settles t (Rejected e) \<Rightarrow> s2
         | Pending \<Rightarrow> s2)"

subsection \<open>Notions the properties are stated with\<close>

text \<open>The deferred objections of a list, in its order.\<close>

fun deferreds :: "objection list \<Rightarrow> bool TPromise list" where
  "deferreds [] = []"
| "deferreds (Immediate b # vetos) = deferreds vetos"
| "deferreds (Deferred p # vetos) = p # deferreds vetos"

text \<open>The last tick at which a promise of a list settles.\<close>

fun latest :: "'a TPromise list \<Rightarrow> nat" where
  "latest [] = 0"
| "latest (Settles t s # ps) = max t (latest ps)"
| "latest (Pending # ps) = latest ps"

text \<open>A deferred objection that sets \<open>lazyValue\<close>: it yields \<open>true\<close> or fails.\<close>

fun vetoing :: "bool TPromise \<Rightarrow> bool" where
  "vetoing (Settles t (Fulfilled v)) = v"
| "vetoing (Settles t (Rejected e)) = True"
| "vetoing Pending = False"

text \<open>What the callbacks of a deferred objection show: the error of a failure.\<close>

fun reports :: "(string \<Rightarrow> string) \<Rightarrow> bool TPromise \<Rightarrow> (Severity \<times> string) list" where
  "reports toErrorMessage (Settles t (Rejected e)) = [(Error, toErrorMessage e)]"
| "reports toErrorMessage p = []"

text \<open>
  An objection that is false: the boolean \<open>false\<close>, or a deferred objection
  that settles and yields \<open>false\<close>.
\<close>

fun is_false :: "objection \<Rightarrow> bool" where
  "is_false (Immediate b) = (\<not> b)"
| "is_false (Deferred (Settles t (Fulfilled v))) = (\<not> v)"
| "is_false (Deferred p) = False"

text \<open>
  The veto the callback of \<open>done\<close> has been run with by tick \<open>T\<close>: none as
  long as the decision is not fulfilled.
\<close>

fun decided_by :: "nat \<Rightarrow> bool TPromise \<Rightarrow> bool option" where
  "decided_by T (Settles t (Fulfilled veto)) = (if t \<le> T then Some veto else None)"
| "decided_by T (Settles t (Rejected e)) = None"
| "decided_by T Pending = None"

text \<open>
  The classifier in the words of the spec (section 4.1), on the prior reason
  or its absence; the constructor is compared with it.
\<close>

fun classify :: "ShutdownReason option \<Rightarrow> StartupKind" where
  "classify (Some RELOAD) = ReloadedWindow"
| "classify (Some LOAD) = ReopenedWindow"
| "classify (Some r) = NewWindow"
| "classify None = NewWindow"

section \<open>Properties of the aggregation\<close>

lemma scan_immediate_true:
  "Immediate True \<in> set vetos \<Longrightarrow> snd (scan vetos promises) = True"
  by (induction vetos promises rule: scan.induct) auto

text \<open>
  C7: for the empty objection list the aggregation returns \<open>false\<close>, at once,
  and no callback is attached to anything.
\<close>

theorem resolve_empty:
  "resolve toErrorMessage [] = (Settles 0 (Fulfilled False), [])"
  by (simp add: resolve_def TPromise_as_def)

text \<open>
  C2: whenever the list holds an immediate objection \<open>true\<close>, the decision is
  the promise that is fulfilled with \<open>true\<close> at tick 0, whatever the deferred
  objections of the list do and whether they ever settle.
\<close>

theorem resolve_immediate_true:
  "Immediate True \<in> set vetos \<Longrightarrow>
     fst (resolve toErrorMessage vetos) = Settles 0 (Fulfilled True)"
proof -
  assume a: "Immediate True \<in> set vetos"
  then have "vetos \<noteq> []" by auto
  moreover from a have "snd (scan vetos []) = True" by (rule scan_immediate_true)
  ultimately show ?thesis
    by (auto simp add: resolve_def TPromise_as_def split: prod.splits)
qed

theorem resolve_immediate_true_witness:
  "Immediate True \<in> set [Deferred Pending, Immediate False, Immediate True,
       Deferred (Settles 7 (Rejected ''disk full''))]
   \<and> fst (resolve id [Deferred Pending, Immediate False, Immediate True,
       Deferred (Settles 7 (Rejected ''disk full''))]) = Settles 0 (Fulfilled True)"
  using resolve_immediate_true [of "[Deferred Pending, Immediate False, Immediate True,
       Deferred (Settles 7 (Rejected ''disk full''))]" id]
  by simp

lemma deferreds_set: "p \<in> set (deferreds vetos) \<longleftrightarrow> Deferred p \<in> set vetos"
  by (induction vetos rule: deferreds.induct) auto

lemma deferreds_append: "deferreds (xs @ ys) = deferreds xs @ deferreds ys"
  by (induction xs rule: deferreds.induct) auto

lemma scan_no_immediate_true:
  "Immediate True \<notin> set vetos \<Longrightarrow> scan vetos promises = (promises @ deferreds vetos, False)"
  by (induction vetos promises rule: scan.induct) auto

lemma join_then_void:
  "join (map then_void ps) =
     (if Pending \<in> set ps then Pending
      else Settles (latest ps) (Fulfilled (map (\<lambda>p. ()) ps)))"
  by (induction ps rule: latest.induct) auto

lemma settled_by_mono: "settled_by T p \<Longrightarrow> T \<le> T' \<Longrightarrow> settled_by T' p"
  by (cases p) auto

lemma latest_bound: "Pending \<notin> set ps \<Longrightarrow> p \<in> set ps \<Longrightarrow> settled_by (latest ps) p"
proof (induction ps rule: latest.induct)
  case 1
  then show ?case by simp
next
  case (2 t s ps)
  show ?case
  proof (cases "p = Settles t s")
    case True
    then show ?thesis by simp
  next
    case False
    with 2 have "settled_by (latest ps) p" by auto
    then show ?thesis by (rule settled_by_mono) simp
  qed
next
  case (3 ps)
  then show ?case by auto
qed

lemma settled_by_0: "settled_by 0 p = settled_at 0 p"
  by (cases p) auto

lemma settled_by_Suc: "settled_by (Suc T) p = (settled_by T p \<or> settled_at (Suc T) p)"
  by (cases p) auto

lemma lazyValue_foldl:
  "lazyValue (foldl (run_callback f) st ps) = (lazyValue st \<or> (\<exists>p\<in>set ps. vetoing p))"
proof (induction ps arbitrary: st)
  case Nil
  then show ?case by simp
next
  case (Cons p ps)
  have "lazyValue (run_callback f st p) = (lazyValue st \<or> vetoing p)"
    by (cases "(f, st, p)" rule: run_callback.cases) (auto simp: on_value_def on_error_def)
  with Cons show ?case by auto
qed

lemma shown_foldl:
  "shown (foldl (run_callback f) st ps) = shown st @ concat (map (reports f) ps)"
proof (induction ps arbitrary: st)
  case Nil
  then show ?case by simp
next
  case (Cons p ps)
  have "shown (run_callback f st p) = shown st @ reports f p"
    by (cases "(f, st, p)" rule: run_callback.cases) (auto simp: on_value_def on_error_def)
  with Cons show ?case by auto
qed

lemma lazyValue_state_at:
  "lazyValue (state_at f ps T) = (\<exists>p\<in>set ps. settled_by T p \<and> vetoing p)"
  by (induction T) (auto simp: lazyValue_foldl settled_by_0 settled_by_Suc)

lemma resolve_no_immediate_true:
  assumes "Immediate True \<notin> set vetos"
  shows "resolve f vetos =
     (if Pending \<in> set (deferreds vetos) then Pending
      else Settles (latest (deferreds vetos))
             (Fulfilled (\<exists>p\<in>set (deferreds vetos). vetoing p)),
      deferreds vetos)"
proof (cases "vetos = []")
  case True
  then show ?thesis by (simp add: resolve_def TPromise_as_def)
next
  case False
  have "\<not> Pending \<in> set (deferreds vetos) \<Longrightarrow>
     (\<exists>p\<in>set (deferreds vetos). settled_by (latest (deferreds vetos)) p \<and> vetoing p)
       = (\<exists>p\<in>set (deferreds vetos). vetoing p)"
    using latest_bound by blast
  with False assms show ?thesis
    by (simp add: resolve_def scan_no_immediate_true join_then_void lazyValue_state_at)
qed

lemma all_false_vetoing:
  "Immediate True \<notin> set vetos \<Longrightarrow> Pending \<notin> set (deferreds vetos) \<Longrightarrow>
     list_all is_false vetos = (\<not> (\<exists>p\<in>set (deferreds vetos). vetoing p))"
proof (induction vetos)
  case Nil
  then show ?case by simp
next
  case (Cons v vetos)
  then show ?case by (cases v rule: is_false.cases) auto
qed


lemma is_false_deferreds:
  "list_all is_false vetos \<Longrightarrow> p \<in> set (deferreds vetos) \<Longrightarrow>
     reports f p = [] \<and> \<not> vetoing p \<and> p \<noteq> Pending"
proof (induction vetos)
  case Nil
  then show ?case by simp
next
  case (Cons v vetos)
  then show ?case by (cases v rule: is_false.cases) auto
qed

lemma is_false_no_immediate_true: "list_all is_false vetos \<Longrightarrow> Immediate True \<notin> set vetos"
  by (auto simp: list_all_iff)

lemma no_reports:
  "\<forall>p\<in>set ps. reports f p = [] \<Longrightarrow> concat (map (reports f) (filter P ps)) = []"
  by (induction ps) auto

lemma single_report:
  assumes "\<forall>p\<in>set dx. reports f p = []" and "\<forall>p\<in>set dy. reports f p = []"
  shows "shown (state_at f (dx @ Settles t (Rejected e) # dy) T) =
           (if t \<le> T then [(Error, f e)] else [])"
proof (induction T)
  case 0
  from assms show ?case by (simp add: shown_foldl no_reports)
next
  case (Suc T)
  from assms Suc show ?case by (auto simp add: shown_foldl no_reports)
qed

text \<open>
  C4: when no immediate objection is \<open>true\<close>, a decision that is there at
  tick \<open>t\<close> finds every deferred objection of the list settled by \<open>t\<close>, it
  is never a failure, and it is \<open>false\<close> exactly when all objections are
  false. The decision is reached when every deferred objection settles, and
  stays pending when one of them does.
\<close>

theorem resolve_awaits_all:
  assumes "Immediate True \<notin> set vetos"
  shows "(\<forall>t s. fst (resolve f vetos) = Settles t s \<longrightarrow>
            (\<forall>p. Deferred p \<in> set vetos \<longrightarrow> settled_by t p) \<and>
            s = Fulfilled (\<not> list_all is_false vetos)) \<and>
         ((\<forall>p. Deferred p \<in> set vetos \<longrightarrow> p \<noteq> Pending) \<longrightarrow>
            (\<exists>t. fst (resolve f vetos) = Settles t (Fulfilled (\<not> list_all is_false vetos)))) \<and>
         (Deferred Pending \<in> set vetos \<longrightarrow> fst (resolve f vetos) = Pending)"
proof -
  let ?ps = "deferreds vetos"
  have d: "fst (resolve f vetos) =
     (if Pending \<in> set ?ps then Pending
      else Settles (latest ?ps) (Fulfilled (\<exists>p\<in>set ?ps. vetoing p)))"
    using assms by (simp add: resolve_no_immediate_true)
  have v: "Pending \<notin> set ?ps \<Longrightarrow>
     (\<exists>p\<in>set ?ps. vetoing p) = (\<not> list_all is_false vetos)"
    using assms by (simp add: all_false_vetoing)
  have b: "Pending \<notin> set ?ps \<Longrightarrow> Deferred p \<in> set vetos \<Longrightarrow> settled_by (latest ?ps) p" for p
    using latest_bound [of ?ps p] by (simp add: deferreds_set)
  have p: "Pending \<in> set ?ps \<longleftrightarrow> Deferred Pending \<in> set vetos"
    by (rule deferreds_set)
  show ?thesis
  proof (cases "Pending \<in> set ?ps")
    case True
    with d p show ?thesis by auto
  next
    case False
    with d v b p show ?thesis by auto
  qed
qed

theorem resolve_awaits_all_witness:
  "(Immediate True \<notin> set [Immediate False, Deferred (Settles 2 (Fulfilled True)),
       Deferred (Settles 5 (Fulfilled False))]
    \<and> fst (resolve id [Immediate False, Deferred (Settles 2 (Fulfilled True)),
       Deferred (Settles 5 (Fulfilled False))]) = Settles 5 (Fulfilled True)
    \<and> settled_by 5 (Settles 2 (Fulfilled True))
    \<and> settled_by 5 (Settles 5 (Fulfilled False))
    \<and> \<not> list_all is_false [Immediate False, Deferred (Settles 2 (Fulfilled True)),
       Deferred (Settles 5 (Fulfilled False))])
   \<and> (Immediate True \<notin> set [Deferred (Settles 1 (Fulfilled True)), Deferred Pending]
    \<and> Deferred Pending \<in> set [Deferred (Settles 1 (Fulfilled True)), Deferred Pending]
    \<and> fst (resolve id [Deferred (Settles 1 (Fulfilled True)), Deferred Pending]) = Pending)"
proof -
  let ?settling = "[Immediate False, Deferred (Settles 2 (Fulfilled True)),
       Deferred (Settles 5 (Fulfilled False))]"
  let ?hung = "[Deferred (Settles 1 (Fulfilled True)), Deferred Pending]"
  have h1: "Immediate True \<notin> set ?settling" by simp
  have h2: "\<forall>p. Deferred p \<in> set ?settling \<longrightarrow> p \<noteq> Pending" by auto
  have h3: "Immediate True \<notin> set ?hung" by simp
  have h4: "Deferred Pending \<in> set ?hung" by simp
  from resolve_awaits_all [OF h1, of id] h2
  obtain t where t: "fst (resolve id ?settling) = Settles t (Fulfilled (\<not> list_all is_false ?settling))"
    by blast
  from resolve_awaits_all [OF h1, of id] t
  have "settled_by t (Settles 5 (Fulfilled False))" by auto
  moreover have "t \<le> 5" using t by (simp add: resolve_def)
  ultimately have "t = 5" by simp
  with t have a: "fst (resolve id ?settling) = Settles 5 (Fulfilled True)" by simp
  from resolve_awaits_all [OF h3, of id] h4
  have b: "fst (resolve id ?hung) = Pending" by blast
  from a b show ?thesis by simp
qed

text \<open>
  C3: one deferred objection fails at tick \<open>t\<close> among objections that are
  all false. The decision is fulfilled with \<open>true\<close>, not before \<open>t\<close>, and
  is no failure; the callbacks show nothing before tick \<open>t\<close> and, from then
  on, the one report of the error with severity \<open>Error\<close>.
\<close>

theorem resolve_single_failure:
  assumes "list_all is_false xs" and "list_all is_false ys"
  shows "(\<exists>T. t \<le> T \<and>
            fst (resolve f (xs @ Deferred (Settles t (Rejected e)) # ys)) = Settles T (Fulfilled True)) \<and>
         (\<forall>T. shown (state_at f (snd (resolve f (xs @ Deferred (Settles t (Rejected e)) # ys))) T) =
            (if t \<le> T then [(Error, f e)] else []))"
proof -
  let ?vetos = "xs @ Deferred (Settles t (Rejected e)) # ys"
  let ?ps = "deferreds xs @ Settles t (Rejected e) # deferreds ys"
  have ps: "deferreds ?vetos = ?ps" by (simp add: deferreds_append)
  have n: "Immediate True \<notin> set ?vetos"
    using assms by (simp add: is_false_no_immediate_true)
  have np: "Pending \<notin> set ?ps"
    using assms is_false_deferreds [of xs Pending f] is_false_deferreds [of ys Pending f] by auto
  have r: "resolve f ?vetos = (Settles (latest ?ps) (Fulfilled True), ?ps)"
    using n np by (simp add: resolve_no_immediate_true ps)
  have le: "t \<le> latest ?ps"
    using latest_bound [OF np, of "Settles t (Rejected e)"] by simp
  have "\<forall>p\<in>set (deferreds xs). reports f p = []" "\<forall>p\<in>set (deferreds ys). reports f p = []"
    using assms is_false_deferreds by blast+
  then have "shown (state_at f ?ps T) = (if t \<le> T then [(Error, f e)] else [])" for T
    by (rule single_report)
  with r le show ?thesis by simp
qed

theorem resolve_single_failure_witness:
  "list_all is_false [Immediate False]
   \<and> list_all is_false [Deferred (Settles 1 (Fulfilled False))]
   \<and> fst (resolve id ([Immediate False] @ Deferred (Settles 2 (Rejected ''boom'')) #
         [Deferred (Settles 1 (Fulfilled False))])) = Settles 2 (Fulfilled True)
   \<and> shown (state_at id (snd (resolve id ([Immediate False] @
         Deferred (Settles 2 (Rejected ''boom'')) #
         [Deferred (Settles 1 (Fulfilled False))]))) 2) = [(Error, ''boom'')]"
proof -
  have h: "list_all is_false [Immediate False]"
    "list_all is_false [Deferred (Settles 1 (Fulfilled False))]"
    by simp_all
  from resolve_single_failure [OF h, of 2 id "''boom''"] h show ?thesis
    by (auto simp add: resolve_def lazyValue_state_at)
qed

section \<open>The persisted reason as a string\<close>

lemma digit_char_props:
  assumes "d < 10"
  shows "is_digit (digit_char d) \<and> digit_value (digit_char d) = d \<and>
         \<not> is_space (digit_char d) \<and> digit_char d \<noteq> CHR ''-'' \<and> digit_char d \<noteq> CHR ''+''"
proof -
  from assms have "d \<in> {0, 1, 2, 3, 4, 5, 6, 7, 8, 9 :: nat}" by auto
  then show ?thesis
    by (auto simp: digit_char_def digits_def is_digit_def digit_value_def is_space_def)
qed

lemma dec_digits_digits: "\<forall>c\<in>set (dec_digits n). is_digit c"
proof (induction n rule: dec_digits.induct)
  case (1 n)
  then show ?case
    by (subst dec_digits.simps) (auto simp: digit_char_props)
qed

lemma dec_digits_hd: "\<exists>d r. d < 10 \<and> dec_digits n = digit_char d # r"
proof (induction n rule: dec_digits.induct)
  case (1 n)
  show ?case
  proof (cases "n < 10")
    case True
    then show ?thesis by (subst dec_digits.simps) auto
  next
    case False
    with 1 obtain d r where "d < 10" "dec_digits (n div 10) = digit_char d # r" by auto
    with False show ?thesis by (subst dec_digits.simps) auto
  qed
qed

lemma parse_digits_snoc: "parse_digits (ds @ [c]) = 10 * parse_digits ds + digit_value c"
  by (simp add: parse_digits_def)

lemma parse_dec_digits: "parse_digits (dec_digits n) = n"
proof (induction n rule: dec_digits.induct)
  case (1 n)
  show ?case
  proof (cases "n < 10")
    case True
    then show ?thesis
      by (subst dec_digits.simps) (simp add: parse_digits_def digit_char_props)
  next
    case False
    with 1 have "parse_digits (dec_digits (n div 10)) = n div 10" by simp
    with False show ?thesis
      by (subst dec_digits.simps) (simp add: parse_digits_snoc digit_char_props)
  qed
qed

lemma parseInt_dec_digits: "parseInt (dec_digits n) = Number (int n)"
proof -
  obtain d r where d: "d < 10" and r: "dec_digits n = digit_char d # r"
    using dec_digits_hd by blast
  have t: "takeWhile is_digit (dec_digits n) = dec_digits n"
    using dec_digits_digits by (simp add: takeWhile_eq_all_conv)
  from d have p: "\<not> is_space (digit_char d)" "digit_char d \<noteq> CHR ''-''" "digit_char d \<noteq> CHR ''+''"
    by (simp_all add: digit_char_props)
  have "dropWhile is_space (dec_digits n) = dec_digits n"
    using r p by simp
  with t r p show ?thesis
    using parse_dec_digits [of n] by (simp add: parseInt_def Let_def)
qed

lemma parseInt_minus_dec_digits: "0 < n \<Longrightarrow> parseInt (CHR ''-'' # dec_digits n) = Number (- int n)"
proof -
  have t: "takeWhile is_digit (dec_digits n) = dec_digits n"
    using dec_digits_digits by (simp add: takeWhile_eq_all_conv)
  have s: "\<not> is_space CHR ''-''" by (simp add: is_space_def)
  obtain d r where r: "dec_digits n = digit_char d # r"
    using dec_digits_hd by blast
  show ?thesis
    using t s r parse_dec_digits [of n] by (simp add: parseInt_def Let_def)
qed

lemma parseInt_JSON_stringify: "parseInt (JSON_stringify n) = Number n"
  by (cases "n < 0") (simp_all add: JSON_stringify_def parseInt_dec_digits parseInt_minus_dec_digits)

section \<open>Properties of the service\<close>

lemma beforeUnload_at_decided:
  "beforeUnload_at f T reply s =
     (let s1 = beforeUnload_accept reply s;
          r = onBeforeUnload f (onWillShutdown_listeners s) (reason reply);
          s2 = s1\<lparr>messageService := messageService s @ shown (state_at f (snd r) T)\<rparr>
      in case decided_by T (fst r) of Some veto \<Rightarrow> beforeUnload_done reply veto s2 | None \<Rightarrow> s2)"
  by (auto simp: beforeUnload_at_def beforeUnload_accept_def Let_def
      split: prod.splits TPromise.splits settlement.splits)

lemma storage_after_request:
  "storageService (beforeUnload_at f T reply s) =
     (case decided_by T (fst (onBeforeUnload f (onWillShutdown_listeners s) (reason reply))) of
        Some True \<Rightarrow>
          remove_key lastShutdownReasonKey WORKSPACE
            (store lastShutdownReasonKey (JSON_stringify (reason_value (reason reply))) WORKSPACE
               (storageService s))
      | Some False \<Rightarrow>
          store lastShutdownReasonKey (JSON_stringify (reason_value (reason reply))) WORKSPACE
            (storageService s)
      | None \<Rightarrow>
          store lastShutdownReasonKey (JSON_stringify (reason_value (reason reply))) WORKSPACE
            (storageService s))"
  by (simp add: beforeUnload_at_decided beforeUnload_done_def beforeUnload_accept_def
      Let_def split: option.splits bool.splits)

lemma startupKind_of_reason:
  "getInteger lastShutdownReasonKey WORKSPACE st = Number (reason_value R) \<Longrightarrow>
     startupKind (new_LifecycleService msgs wid st) = classify (Some R)"
  by (cases R) (simp_all add: new_LifecycleService_def Let_def)

lemma startupKind_of_no_reason:
  assumes "\<forall>R. getInteger lastShutdownReasonKey WORKSPACE st \<noteq> Number (reason_value R)"
  shows "startupKind (new_LifecycleService msgs wid st) = classify None"
  using assms [rule_format, of RELOAD] assms [rule_format, of LOAD]
  by (simp add: new_LifecycleService_def Let_def)

text \<open>
  C5: the startup kind the constructor derives is the classification of the
  prior reason it reads from the storage, and of nothing else: a stored
  \<open>RELOAD\<close> gives \<open>ReloadedWindow\<close>, a stored \<open>LOAD\<close> gives
  \<open>ReopenedWindow\<close>, any other reason gives \<open>NewWindow\<close>, and so does a
  read that yields no reason at all (no value, no number, or a number that is
  no reason).
\<close>

theorem startupKind_classification:
  "(\<forall>R. getInteger lastShutdownReasonKey WORKSPACE st = Number (reason_value R) \<longrightarrow>
        startupKind (new_LifecycleService msgs wid st) = classify (Some R)) \<and>
   ((\<forall>R. getInteger lastShutdownReasonKey WORKSPACE st \<noteq> Number (reason_value R)) \<longrightarrow>
        startupKind (new_LifecycleService msgs wid st) = classify None)"
  using startupKind_of_reason startupKind_of_no_reason by blast

theorem startupKind_classification_witness:
  "(getInteger lastShutdownReasonKey WORKSPACE
      (store lastShutdownReasonKey ''4'' WORKSPACE Map.empty) = Number (reason_value LOAD)
    \<and> startupKind (new_LifecycleService [] 7
         (store lastShutdownReasonKey ''4'' WORKSPACE Map.empty)) = ReopenedWindow)
   \<and> ((\<forall>R. getInteger lastShutdownReasonKey WORKSPACE Map.empty \<noteq> Number (reason_value R))
    \<and> startupKind (new_LifecycleService [] 7 Map.empty) = NewWindow)"
proof -
  have h: "getInteger lastShutdownReasonKey WORKSPACE
     (store lastShutdownReasonKey ''4'' WORKSPACE Map.empty) = Number (reason_value LOAD)"
    by (simp add: getInteger_def get_key_def store_def parseInt_def is_space_def is_digit_def
        digits_def parse_digits_def digit_value_def)
  have n: "\<forall>R. getInteger lastShutdownReasonKey WORKSPACE Map.empty \<noteq> Number (reason_value R)"
    by (simp add: getInteger_def get_key_def)
  from startupKind_classification
    [of "store lastShutdownReasonKey ''4'' WORKSPACE Map.empty" "[]" 7,
      THEN conjunct1, rule_format, OF h]
    startupKind_classification [of Map.empty "[]" 7, THEN conjunct2, THEN mp, OF n] h n
  show ?thesis by simp
qed

text \<open>
  C1, amended: after a request the key of the persisted reason is absent from
  the workspace scope once the veto has been decided, and only then. While the
  decision is open, and after the decision to proceed, the key holds the
  reason of the request as \<open>JSON.stringify\<close> wrote it. The constructor
  removes the key: the store an instance starts with does not hold it.
\<close>

theorem reason_key_after_request:
  "get_key lastShutdownReasonKey WORKSPACE (storageService (beforeUnload_at f T reply s)) =
     (case decided_by T (fst (onBeforeUnload f (onWillShutdown_listeners s) (reason reply))) of
        Some True \<Rightarrow> None
      | Some False \<Rightarrow> Some (JSON_stringify (reason_value (reason reply)))
      | None \<Rightarrow> Some (JSON_stringify (reason_value (reason reply)))) \<and>
   get_key lastShutdownReasonKey WORKSPACE (storageService (new_LifecycleService msgs wid st)) =
     None"
  by (simp add: storage_after_request new_LifecycleService_def Let_def
      get_key_def store_def remove_key_def split: option.splits bool.splits)

theorem reason_key_after_request_witness:
  "get_key lastShutdownReasonKey WORKSPACE
     (storageService (beforeUnload_at id 0 \<lparr>okChannel = ''ok'', cancelChannel = ''cancel'', reason = QUIT\<rparr>
        (subscribe_onWillShutdown (\<lambda>r. [Immediate True]) (new_LifecycleService [] 7 Map.empty))))
   = None
   \<and> get_key lastShutdownReasonKey WORKSPACE
        (store lastShutdownReasonKey ''3'' WORKSPACE Map.empty) = Some ''3''
   \<and> get_key lastShutdownReasonKey WORKSPACE
        (storageService (new_LifecycleService [] 8
           (store lastShutdownReasonKey ''3'' WORKSPACE Map.empty))) = None"
  using reason_key_after_request [of id 0 "\<lparr>okChannel = ''ok'', cancelChannel = ''cancel'', reason = QUIT\<rparr>"
        "subscribe_onWillShutdown (\<lambda>r. [Immediate True]) (new_LifecycleService [] 7 Map.empty)"
        "[]" 8 "store lastShutdownReasonKey ''3'' WORKSPACE Map.empty"]
  by (simp add: onBeforeUnload_def resolve_def fire_onWillShutdown_def
      subscribe_onWillShutdown_def new_LifecycleService_def Let_def TPromise_as_def
      get_key_def store_def)

text \<open>
  C1 as worded fails on a request that proceeds: with no listener the decision
  is \<open>false\<close> at tick 0, the reply goes out on the ok channel, and the key
  still holds the reason.
\<close>

theorem reason_key_kept_on_proceed:
  "decided_by 0 (fst (onBeforeUnload id
      (onWillShutdown_listeners (new_LifecycleService [] 7 Map.empty)) RELOAD)) = Some False
   \<and> ipc_sent (beforeUnload_at id 0 \<lparr>okChannel = ''ok'', cancelChannel = ''cancel'', reason = RELOAD\<rparr> (new_LifecycleService [] 7 Map.empty))
       = [(''ok'', 7)]
   \<and> get_key lastShutdownReasonKey WORKSPACE
        (storageService (beforeUnload_at id 0 \<lparr>okChannel = ''ok'', cancelChannel = ''cancel'', reason = RELOAD\<rparr> (new_LifecycleService [] 7 Map.empty)))
       = Some ''3''"
  by (simp add: beforeUnload_at_def beforeUnload_accept_def beforeUnload_done_def
      onBeforeUnload_def resolve_def fire_onWillShutdown_def new_LifecycleService_def Let_def
      TPromise_as_def get_key_def store_def remove_key_def JSON_stringify_def
      dec_digits.simps digit_char_def digits_def)

text \<open>
  C6, amended: a request sets the flag to \<open>true\<close> when it is accepted; the
  flag is \<open>false\<close> once the veto has been decided, and it stays \<open>true\<close>
  while the decision is open and after the decision to proceed.
\<close>

theorem willShutdown_flag:
  "willShutdown (beforeUnload_accept reply s) = Some True \<and>
   willShutdown (beforeUnload_at f T reply s) =
     (case decided_by T (fst (onBeforeUnload f (onWillShutdown_listeners s) (reason reply))) of
        Some True \<Rightarrow> Some False
      | Some False \<Rightarrow> Some True
      | None \<Rightarrow> Some True)"
  by (simp add: beforeUnload_at_decided beforeUnload_done_def beforeUnload_accept_def
      Let_def split: option.splits bool.splits)

theorem willShutdown_flag_witness:
  "willShutdown (beforeUnload_at id 3 \<lparr>okChannel = ''ok'', cancelChannel = ''cancel'', reason = QUIT\<rparr>
     (subscribe_onWillShutdown (\<lambda>r. [Deferred (Settles 3 (Fulfilled True))])
        (new_LifecycleService [] 7 Map.empty))) = Some False
   \<and> willShutdown (beforeUnload_at id 2 \<lparr>okChannel = ''ok'', cancelChannel = ''cancel'', reason = QUIT\<rparr>
     (subscribe_onWillShutdown (\<lambda>r. [Deferred (Settles 3 (Fulfilled True))])
        (new_LifecycleService [] 7 Map.empty))) = Some True"
  using willShutdown_flag [of "\<lparr>okChannel = ''ok'', cancelChannel = ''cancel'', reason = QUIT\<rparr>"
      "subscribe_onWillShutdown (\<lambda>r. [Deferred (Settles 3 (Fulfilled True))])
        (new_LifecycleService [] 7 Map.empty)" id 3]
    willShutdown_flag [of "\<lparr>okChannel = ''ok'', cancelChannel = ''cancel'', reason = QUIT\<rparr>"
      "subscribe_onWillShutdown (\<lambda>r. [Deferred (Settles 3 (Fulfilled True))])
        (new_LifecycleService [] 7 Map.empty)" id 2]
  by (simp add: onBeforeUnload_def resolve_def fire_onWillShutdown_def
      subscribe_onWillShutdown_def new_LifecycleService_def Let_def lazyValue_state_at)

text \<open>
  C6 as worded fails on a request that proceeds: two listeners object with
  \<open>false\<close>, the decision is \<open>false\<close> at tick 0, the reply has gone out on
  the ok channel, and the flag is still \<open>true\<close>.
\<close>

theorem willShutdown_true_after_proceed:
  "decided_by 0 (fst (onBeforeUnload id
      (onWillShutdown_listeners
         (subscribe_onWillShutdown (\<lambda>r. [Immediate False])
            (subscribe_onWillShutdown (\<lambda>r. [Immediate False])
               (new_LifecycleService [] 7 Map.empty)))) CLOSE)) = Some False
   \<and> ipc_sent (beforeUnload_at id 0 \<lparr>okChannel = ''ok'', cancelChannel = ''cancel'', reason = CLOSE\<rparr>
        (subscribe_onWillShutdown (\<lambda>r. [Immediate False])
           (subscribe_onWillShutdown (\<lambda>r. [Immediate False])
              (new_LifecycleService [] 7 Map.empty)))) = [(''ok'', 7)]
   \<and> willShutdown (beforeUnload_at id 0 \<lparr>okChannel = ''ok'', cancelChannel = ''cancel'', reason = CLOSE\<rparr>
        (subscribe_onWillShutdown (\<lambda>r. [Immediate False])
           (subscribe_onWillShutdown (\<lambda>r. [Immediate False])
              (new_LifecycleService [] 7 Map.empty)))) = Some True"
  by (simp add: beforeUnload_at_def beforeUnload_accept_def beforeUnload_done_def
      onBeforeUnload_def resolve_def fire_onWillShutdown_def subscribe_onWillShutdown_def
      new_LifecycleService_def Let_def TPromise_as_def)

text \<open>
  C8, amended: a request adds at most one call of \<open>ipc.send\<close>, with the id
  of the window: on the cancel channel once the veto has been decided, on the
  ok channel once the decision to proceed has been taken, and none as long as
  the decision is open, which is for ever when it stays pending.
\<close>

theorem reply_on_one_channel:
  "ipc_sent (beforeUnload_at f T reply s) =
     ipc_sent s @
     (case decided_by T (fst (onBeforeUnload f (onWillShutdown_listeners s) (reason reply))) of
        Some True \<Rightarrow> [(cancelChannel reply, windowId s)]
      | Some False \<Rightarrow> [(okChannel reply, windowId s)]
      | None \<Rightarrow> [])"
  by (simp add: beforeUnload_at_decided beforeUnload_done_def beforeUnload_accept_def
      Let_def split: option.splits bool.splits)

theorem reply_on_one_channel_witness:
  "ipc_sent (beforeUnload_at id 0 \<lparr>okChannel = ''ok'', cancelChannel = ''cancel'', reason = QUIT\<rparr>
     (subscribe_onWillShutdown (\<lambda>r. [Immediate True]) (new_LifecycleService [] 7 Map.empty)))
   = [(''cancel'', 7)]"
  using reply_on_one_channel [of id 0 "\<lparr>okChannel = ''ok'', cancelChannel = ''cancel'', reason = QUIT\<rparr>"
      "subscribe_onWillShutdown (\<lambda>r. [Immediate True]) (new_LifecycleService [] 7 Map.empty)"]
  by (simp add: onBeforeUnload_def resolve_def fire_onWillShutdown_def
      subscribe_onWillShutdown_def new_LifecycleService_def Let_def TPromise_as_def)

text \<open>
  C8 as worded fails on a request whose only objection is a deferred one that
  never settles: the decision stays pending and nothing is sent on either
  channel, at tick 1000 as at any other.
\<close>

theorem no_reply_while_pending:
  "fst (onBeforeUnload id
      (onWillShutdown_listeners
         (subscribe_onWillShutdown (\<lambda>r. [Deferred Pending])
            (new_LifecycleService [] 7 Map.empty))) QUIT) = Pending
   \<and> ipc_sent (beforeUnload_at id 1000 \<lparr>okChannel = ''ok'', cancelChannel = ''cancel'', reason = QUIT\<rparr>
        (subscribe_onWillShutdown (\<lambda>r. [Deferred Pending])
           (new_LifecycleService [] 7 Map.empty))) = []"
  by (simp add: beforeUnload_at_def beforeUnload_accept_def
      onBeforeUnload_def resolve_def fire_onWillShutdown_def subscribe_onWillShutdown_def
      new_LifecycleService_def Let_def)

text \<open>
  C9: a request fires \<open>onShutdown\<close> once, with its reason, when the decision
  to proceed has been taken; it fires nothing after a veto, and nothing before
  the decision.
\<close>

theorem onShutdown_fired_on_proceed:
  "onShutdown_fired (beforeUnload_at f T reply s) =
     onShutdown_fired s @
     (case decided_by T (fst (onBeforeUnload f (onWillShutdown_listeners s) (reason reply))) of
        Some True \<Rightarrow> []
      | Some False \<Rightarrow> [reason reply]
      | None \<Rightarrow> [])"
  by (simp add: beforeUnload_at_decided beforeUnload_done_def beforeUnload_accept_def
      Let_def split: option.splits bool.splits)

theorem onShutdown_fired_on_proceed_witness:
  "onShutdown_fired (beforeUnload_at id 2 \<lparr>okChannel = ''ok'', cancelChannel = ''cancel'', reason = CLOSE\<rparr>
     (subscribe_onWillShutdown (\<lambda>r. [Immediate False])
        (subscribe_onWillShutdown (\<lambda>r. [Deferred (Settles 2 (Fulfilled False))])
           (new_LifecycleService [] 7 Map.empty)))) = [CLOSE]"
  using onShutdown_fired_on_proceed [of id 2 "\<lparr>okChannel = ''ok'', cancelChannel = ''cancel'', reason = CLOSE\<rparr>"
      "subscribe_onWillShutdown (\<lambda>r. [Immediate False])
        (subscribe_onWillShutdown (\<lambda>r. [Deferred (Settles 2 (Fulfilled False))])
           (new_LifecycleService [] 7 Map.empty))"]
  by (simp add: onBeforeUnload_def resolve_def fire_onWillShutdown_def
      subscribe_onWillShutdown_def new_LifecycleService_def Let_def lazyValue_state_at)

text \<open>
  C10: what \<open>getInteger\<close> reads under a key is the reason that was stored
  there as \<open>JSON.stringify\<close> wrote it; and once a request has proceeded, an
  instance constructed on the storage it left reads the reason of the request
  and has the startup kind that classifies it.
\<close>

theorem reason_round_trip:
  "getInteger key scope (store key (JSON_stringify (reason_value R)) scope st) =
     Number (reason_value R) \<and>
   (decided_by T (fst (onBeforeUnload f (onWillShutdown_listeners s) (reason reply))) = Some False
      \<longrightarrow>
      getInteger lastShutdownReasonKey WORKSPACE (storageService (beforeUnload_at f T reply s)) =
        Number (reason_value (reason reply)) \<and>
      startupKind (new_LifecycleService msgs wid (storageService (beforeUnload_at f T reply s))) =
        classify (Some (reason reply)))"
proof -
  have a: "getInteger key scope (store key (JSON_stringify (reason_value R)) scope st) =
     Number (reason_value R)"
    by (simp add: getInteger_def get_key_def store_def parseInt_JSON_stringify)
  have b: "getInteger lastShutdownReasonKey WORKSPACE (storageService (beforeUnload_at f T reply s)) =
        Number (reason_value (reason reply))"
    if "decided_by T (fst (onBeforeUnload f (onWillShutdown_listeners s) (reason reply))) = Some False"
    using that
    by (simp add: storage_after_request getInteger_def get_key_def store_def parseInt_JSON_stringify)
  from a b startupKind_of_reason show ?thesis by blast
qed

theorem reason_round_trip_witness:
  "decided_by 0 (fst (onBeforeUnload id
      (onWillShutdown_listeners (new_LifecycleService [] 7 Map.empty)) (reason \<lparr>okChannel = ''ok'', cancelChannel = ''cancel'', reason = RELOAD\<rparr>)))
     = Some False
   \<and> getInteger lastShutdownReasonKey WORKSPACE
        (storageService (beforeUnload_at id 0 \<lparr>okChannel = ''ok'', cancelChannel = ''cancel'', reason = RELOAD\<rparr> (new_LifecycleService [] 7 Map.empty)))
       = Number 3
   \<and> startupKind (new_LifecycleService [] 8
        (storageService (beforeUnload_at id 0 \<lparr>okChannel = ''ok'', cancelChannel = ''cancel'', reason = RELOAD\<rparr> (new_LifecycleService [] 7 Map.empty))))
       = ReloadedWindow"
proof -
  have h: "decided_by 0 (fst (onBeforeUnload id
      (onWillShutdown_listeners (new_LifecycleService [] 7 Map.empty)) (reason \<lparr>okChannel = ''ok'', cancelChannel = ''cancel'', reason = RELOAD\<rparr>)))
     = Some False"
    by (simp add: onBeforeUnload_def resolve_def fire_onWillShutdown_def
        new_LifecycleService_def Let_def TPromise_as_def)
  from reason_round_trip [of _ _ _ _ 0 id "new_LifecycleService [] 7 Map.empty"
      "\<lparr>okChannel = ''ok'', cancelChannel = ''cancel'', reason = RELOAD\<rparr>" "[]" 8, THEN conjunct2, rule_format, OF h] h
  show ?thesis by simp
qed

end
